theory Spec2Isabelle
  imports Main "HOL-Library.Word"
begin

section \<open>Strings: the two functions of Go's \<open>strings\<close> package that the filter calls\<close>

text \<open>
  A Go string is a sequence of bytes, here a \<^typ>\<open>string\<close> (a list of 8-bit characters).

  \<open>strings.ToLower\<close> is modelled on the ASCII letters: \<open>A\<close> to \<open>Z\<close> go to \<open>a\<close> to \<open>z\<close> and
  every other byte stays. This is what Go computes on a string of ASCII bytes, which is
  what a Twitter handle is (letters, digits and the underscore). On a string with bytes
  from 128 on, Go maps whole code points; the model leaves those bytes alone.
\<close>

definition lower_byte :: "char \<Rightarrow> char" where
  "lower_byte c =
     (case map_of (zip ''ABCDEFGHIJKLMNOPQRSTUVWXYZ'' ''abcdefghijklmnopqrstuvwxyz'') c of
        Some l \<Rightarrow> l
      | None \<Rightarrow> c)"

definition ToLower :: "string \<Rightarrow> string" where
  "ToLower s = map lower_byte s"

text \<open>
  \<open>strings.Contains(s, substr)\<close>: whether \<open>substr\<close> occurs in \<open>s\<close> as a run of consecutive
  bytes. The empty string occurs in every string.
\<close>

fun HasPrefix :: "string \<Rightarrow> string \<Rightarrow> bool" where
  "HasPrefix s [] = True"
| "HasPrefix [] (p # ps) = False"
| "HasPrefix (c # cs) (p # ps) = (c = p \<and> HasPrefix cs ps)"

fun Contains :: "string \<Rightarrow> string \<Rightarrow> bool" where
  "Contains [] substr = (substr = [])"
| "Contains (c # cs) substr = (HasPrefix (c # cs) substr \<or> Contains cs substr)"


section \<open>The data of \<open>twitter.go\<close>\<close>

text \<open>
  The package's error values (lines 12 to 22), and \<open>xerrors.Errorf\<close> with the verb \<open>%w\<close>,
  which keeps the error it wraps: \<open>Errorf prefix cause\<close>.
\<close>

datatype transport_error = TransportError string

datatype error =
    ErrNoAuth
  | ErrEmptyFilter
  | ErrAlreadyStarted
  | Errorf string transport_error

fun Unwrap :: "error \<Rightarrow> transport_error option" where
  "Unwrap (Errorf prefix cause) = Some cause"
| "Unwrap e = None"

text \<open>A run-time panic is not an error value: it ends the goroutine, and the program.\<close>

datatype panic = NilPointerDereference

text \<open>
  \<open>Tweet\<close> (lines 25 to 33). \<open>int64\<close> is a 64-bit word. A Go slice is \<open>nil\<close> or holds a
  sequence: \<open>None\<close> is the \<open>nil\<close> slice, and \<open>elems\<close> are the elements of either.
\<close>

record Tweet =
  ID :: "64 word"
  User :: string
  Text :: string
  Time :: "64 word"
  Images :: "string list option"
  UserName :: string
  UserPhoto :: string

fun elems :: "'a list option \<Rightarrow> 'a list" where
  "elems None = []"
| "elems (Some xs) = xs"

text \<open>\<open>append(s, v)\<close> on a slice.\<close>

fun append_slice :: "'a list option \<Rightarrow> 'a \<Rightarrow> 'a list option" where
  "append_slice None v = Some [v]"
| "append_slice (Some xs) v = Some (xs @ [v])"

text \<open>\<open>Filter\<close> (lines 37 to 43) and \<open>Credentials\<close> (lines 55 to 60).\<close>

record Filter =
  Language :: "string list"
  Keywords :: "string list"
  OnlyUsers :: "string list"
  BlockedUsers :: "string list"
  BlockedWords :: "string list"

record Credentials =
  AccessKey :: string
  ConsumerKey :: string
  AccessSecret :: string
  ConsumerSecret :: string

text \<open>
  The types of the imported package \<open>github.com/dghubble/go-twitter/twitter\<close>, with the
  fields that \<open>twitter.go\<close> reads. In \<open>twitter.Tweet\<close> the fields \<open>User\<close> and \<open>Entities\<close> are
  pointers, so either can be \<open>nil\<close> (\<open>None\<close>), and reading a field through a \<open>nil\<close> pointer
  panics. The fields of \<open>twitter.Tweet\<close> carry the prefix \<open>tw\<close> to keep them apart from
  those of \<open>Tweet\<close> above.
\<close>

record TwitterUser =
  ScreenName :: string
  Name :: string
  ProfileImageURLHttps :: string

record MediaEntity =
  Type :: string
  MediaURLHttps :: string

record Entities =
  Media :: "MediaEntity list"

record TwitterTweet =
  tw_ID :: "64 word"
  tw_Text :: string
  tw_User :: "TwitterUser option"
  tw_Entities :: "Entities option"

text \<open>
  What a stream's channel carries: a tweet, or a message of another kind (a deletion
  notice, a stall warning and so on).
\<close>

datatype message = TweetMessage TwitterTweet | OtherMessage

text \<open>
  \<open>twitter.Stream\<close>: \<open>Messages\<close> is the channel the background loop ranges over. The model
  holds what the channel still delivers before it is closed, in order; the empty list is a
  closed channel. \<open>Stream.Stop\<close> closes the channel: nothing more is delivered. A second
  \<open>Stream.Stop\<close> on the same stream is not told apart from the first.
\<close>

record Stream =
  Messages :: "message list"

definition Stream_Stop :: "Stream \<Rightarrow> Stream" where
  "Stream_Stop s = s\<lparr>Messages := []\<rparr>"

text \<open>
  \<open>twitter.StreamFilterParams\<close> as \<open>Start\<close> fills it (lines 75 to 79); \<open>twitter.Bool(true)\<close> is a
  pointer to \<open>true\<close>. The client of lines 159 to 165 is what it was built from: the consumer
  key and secret of the OAuth1 configuration, the access token and secret, and the timeout of
  the HTTP client (a \<open>time.Duration\<close>, an \<open>int64\<close>).
\<close>

record StreamFilterParams =
  Track :: "string list"
  sfp_Language :: "string list"
  StallWarnings :: "bool option"

record Client =
  oauth_config :: "string \<times> string"
  oauth_token :: "string \<times> string"
  Timeout :: "64 word"

text \<open>
  \<open>Twitter\<close> (lines 47 to 52). A callback is a Go function with effects of its own: it is a
  function on the state \<open>'w\<close> of whatever it acts on, and it is taken to return. The field
  \<open>filter\<close> is \<open>filter_f\<close> here.
\<close>

record 'w Twitter =
  cb :: "(Tweet \<Rightarrow> 'w \<Rightarrow> 'w) option"
  filter_f :: "Filter option"
  stream :: "Stream option"
  client :: "Client option"

text \<open>
  What a function does to the outside, in the order it does it: a call over the network
  (the authentication round trip, the opening of a filtered stream), and the \<open>go\<close> statement
  of line 86, which launches the background loop.
\<close>

datatype action =
    VerifyCredentials Client
  | StreamsFilter Client StreamFilterParams
  | Go_loop


section \<open>The filter: \<open>Filter.match\<close> (lines 94 to 118)\<close>

text \<open>
  The loops of lines 96 to 100 and 110 to 114 leave at the first entry whose lower-case
  form is \<open>u\<close>; the loop of lines 103 to 107 at the first entry that occurs in \<open>c\<close>.
\<close>

primrec user_listed :: "string list \<Rightarrow> string \<Rightarrow> bool" where
  "user_listed [] u = False"
| "user_listed (x # xs) u = (if ToLower x = u then True else user_listed xs u)"

primrec word_found :: "string list \<Rightarrow> string \<Rightarrow> bool" where
  "word_found [] c = False"
| "word_found (w # ws) c = (if Contains c w then True else word_found ws c)"

definition match :: "Filter \<Rightarrow> string \<Rightarrow> string \<Rightarrow> bool" where
  "match f u c =
     (if length (BlockedUsers f) > 0 \<and> user_listed (BlockedUsers f) u then False
      else if length (BlockedWords f) > 0 \<and> word_found (BlockedWords f) c then False
      else if length (OnlyUsers f) > 0 then user_listed (OnlyUsers f) u
      else True)"


section \<open>The session: \<open>Stop\<close>, \<open>Start\<close>, \<open>Callback\<close>, \<open>receive\<close>, \<open>NewTwitter\<close>\<close>

text \<open>\<open>Stop\<close> (lines 63 to 67).\<close>

definition Stop :: "'w Twitter \<Rightarrow> 'w Twitter" where
  "Stop t = (case stream t of None \<Rightarrow> t | Some s \<Rightarrow> t\<lparr>stream := Some (Stream_Stop s)\<rparr>)"

text \<open>\<open>Callback\<close> (lines 121 to 123).\<close>

definition Callback :: "'w Twitter \<Rightarrow> (Tweet \<Rightarrow> 'w \<Rightarrow> 'w) option \<Rightarrow> 'w Twitter" where
  "Callback t f = t\<lparr>cb := f\<rparr>"

text \<open>
  \<open>receive\<close> (lines 124 to 148) in its three parts. Lines 125 to 129: whether the tweet goes
  on (\<open>False\<close> is the \<open>return\<close> of line 127). The handle is read through \<open>x.User\<close>.
\<close>

definition receive_filter :: "'w Twitter \<Rightarrow> TwitterTweet \<Rightarrow> panic + bool" where
  "receive_filter t x =
     (case filter_f t of
        None \<Rightarrow> Inr True
      | Some f \<Rightarrow>
          (case tw_User x of
             None \<Rightarrow> Inl NilPointerDereference
           | Some usr \<Rightarrow> Inr (match f (ToLower (ScreenName usr)) (tw_Text x))))"

text \<open>
  Lines 130 to 144: the record. The composite literal names five fields; \<open>Time\<close> and
  \<open>Images\<close> get their zero values. The loop of lines 139 to 143 appends to \<open>r.Images\<close>.
\<close>

primrec append_photos :: "MediaEntity list \<Rightarrow> Tweet \<Rightarrow> Tweet" where
  "append_photos [] r = r"
| "append_photos (m # ms) r =
     append_photos ms
       (if Type m = ''photo'' then r\<lparr>Images := append_slice (Images r) (MediaURLHttps m)\<rparr>
        else r)"

definition receive_record :: "TwitterTweet \<Rightarrow> panic + Tweet" where
  "receive_record x =
     (case tw_User x of
        None \<Rightarrow> Inl NilPointerDereference
      | Some usr \<Rightarrow>
          (let r = \<lparr>ID = tw_ID x, User = ScreenName usr, Text = tw_Text x, Time = 0,
                    Images = None, UserName = Name usr,
                    UserPhoto = ProfileImageURLHttps usr\<rparr>
           in case tw_Entities x of
                None \<Rightarrow> Inl NilPointerDereference
              | Some e \<Rightarrow>
                  if length (Media e) > 0
                  then Inr (append_photos (Media e) (r\<lparr>Images := Some []\<rparr>))
                  else Inr r))"

text \<open>The whole of \<open>receive\<close>, with the call of the callback of lines 145 to 147.\<close>

definition receive :: "'w Twitter \<Rightarrow> TwitterTweet \<Rightarrow> 'w \<Rightarrow> panic + 'w" where
  "receive t x w =
     (case receive_filter t x of
        Inl p \<Rightarrow> Inl p
      | Inr False \<Rightarrow> Inr w
      | Inr True \<Rightarrow>
          (case receive_record x of
             Inl p \<Rightarrow> Inl p
           | Inr r \<Rightarrow> (case cb t of None \<Rightarrow> Inr w | Some f \<Rightarrow> Inr (f r w))))"

text \<open>
  \<open>Start\<close> (lines 71 to 93). \<open>reply\<close> is what \<open>t.client.Streams.Filter\<close> answers when it is
  called. The result is the error returned (\<open>None\<close> is \<open>nil\<close>), the session afterwards and
  what was done to the outside. \<open>t.client\<close> and \<open>t.filter\<close> are pointers.
\<close>

definition Start ::
  "'w Twitter \<Rightarrow> transport_error + Stream \<Rightarrow> panic + (error option \<times> 'w Twitter \<times> action list)"
where
  "Start t reply =
     (if stream t \<noteq> None then Inr (Some ErrAlreadyStarted, t, [])
      else
        (case client t of
           None \<Rightarrow> Inl NilPointerDereference
         | Some c \<Rightarrow>
             (case filter_f t of
                None \<Rightarrow> Inl NilPointerDereference
              | Some f \<Rightarrow>
                  (let p = \<lparr>Track = Keywords f, sfp_Language = Language f,
                            StallWarnings = Some True\<rparr>
                   in case reply of
                        Inl err \<Rightarrow>
                          Inr (Some (Errorf ''unable to start Twitter filter: '' err), t,
                               [StreamsFilter c p])
                      | Inr s \<Rightarrow>
                          Inr (None, t\<lparr>stream := Some s\<rparr>, [StreamsFilter c p, Go_loop])))))"

text \<open>
  The goroutine of lines 86 to 91. \<open>q.Handle(m)\<close> of the demultiplexer built in lines 84
  and 85 calls \<open>receive\<close> on a tweet and does nothing on a message of another kind. The
  \<open>range\<close> loop takes the messages until the channel is closed; then line 90 clears the handle.
  The loop is taken as a whole: no other call changes the session while it runs.
\<close>

definition Handle :: "'w Twitter \<Rightarrow> message \<Rightarrow> 'w \<Rightarrow> panic + 'w" where
  "Handle t m w = (case m of TweetMessage x \<Rightarrow> receive t x w | OtherMessage \<Rightarrow> Inr w)"

fun range_Messages :: "'w Twitter \<Rightarrow> message list \<Rightarrow> 'w \<Rightarrow> panic + 'w" where
  "range_Messages x [] w = Inr w"
| "range_Messages x (m # ms) w =
     (case Handle x m w of Inl p \<Rightarrow> Inl p | Inr w' \<Rightarrow> range_Messages x ms w')"

definition background_loop :: "'w Twitter \<Rightarrow> 'w \<Rightarrow> panic + ('w Twitter \<times> 'w)" where
  "background_loop x w =
     (case stream x of
        None \<Rightarrow> Inl NilPointerDereference
      | Some s \<Rightarrow>
          (case range_Messages x (Messages s) w of
             Inl p \<Rightarrow> Inl p
           | Inr w' \<Rightarrow> Inr (x\<lparr>stream := None\<rparr>, w')))"

text \<open>
  A message of the stream is complete when it is no tweet, or a tweet whose \<open>User\<close> and
  \<open>Entities\<close> are there, as in every tweet the streaming interface sends.
\<close>

fun complete :: "message \<Rightarrow> bool" where
  "complete (TweetMessage x) = (tw_User x \<noteq> None \<and> tw_Entities x \<noteq> None)"
| "complete OtherMessage = True"

text \<open>
  \<open>NewTwitter\<close> (lines 152 to 170). \<open>verify\<close> is what \<open>VerifyCredentials\<close> answers when it is
  called: \<open>None\<close> is success. The result is the pair that Go returns, as a sum, and what was
  done to the outside.
\<close>

definition NewTwitter ::
  "64 word \<Rightarrow> Filter option \<Rightarrow> Credentials option \<Rightarrow> transport_error option
   \<Rightarrow> (error + 'w Twitter) \<times> action list"
where
  "NewTwitter timeout f a verify =
     (case a of
        None \<Rightarrow> (Inl ErrNoAuth, [])
      | Some cred \<Rightarrow>
          (if f = None \<or> length (Keywords (the f)) = 0 then (Inl ErrEmptyFilter, [])
           else
             (let i = \<lparr>oauth_config = (ConsumerKey cred, ConsumerSecret cred),
                       oauth_token = (AccessKey cred, AccessSecret cred),
                       Timeout = timeout\<rparr>;
                  t = \<lparr>cb = None, filter_f = f, stream = None, client = Some i\<rparr>
              in case verify of
                   Some err \<Rightarrow>
                     (Inl (Errorf ''cannot authenticate to Twitter: '' err),
                      [VerifyCredentials i])
                 | None \<Rightarrow> (Inr t, [VerifyCredentials i]))))"


section \<open>Two calls of \<open>Start\<close> on one session\<close>

text \<open>
  \<open>twitter.go\<close> holds no lock and no atomic operation, so the statements of two calls of
  \<open>Start\<close> on the same session can alternate. A call is at one of these places: before the
  check of line 72; past the check and before the call of line 75; with the subscription
  open and before the store of line 83; returned; or stopped by a panic. \<open>Start_step\<close> is
  the next statement of a call, on the session as it is at that moment.
\<close>

datatype Start_at =
    At_check
  | At_open
  | At_store Stream
  | Returned "error option"
  | Panicked panic

fun Start_step ::
  "'w Twitter \<Rightarrow> Start_at \<Rightarrow> transport_error + Stream \<Rightarrow> 'w Twitter \<times> Start_at \<times> action list"
where
  "Start_step t At_check reply =
     (if stream t \<noteq> None then (t, Returned (Some ErrAlreadyStarted), [])
      else (t, At_open, []))"
| "Start_step t At_open reply =
     (case client t of
        None \<Rightarrow> (t, Panicked NilPointerDereference, [])
      | Some c \<Rightarrow>
          (case filter_f t of
             None \<Rightarrow> (t, Panicked NilPointerDereference, [])
           | Some f \<Rightarrow>
               (let p = \<lparr>Track = Keywords f, sfp_Language = Language f,
                         StallWarnings = Some True\<rparr>
                in case reply of
                     Inl err \<Rightarrow>
                       (t, Returned (Some (Errorf ''unable to start Twitter filter: '' err)),
                        [StreamsFilter c p])
                   | Inr s \<Rightarrow> (t, At_store s, [StreamsFilter c p]))))"
| "Start_step t (At_store s) reply = (t\<lparr>stream := Some s\<rparr>, Returned None, [Go_loop])"
| "Start_step t (Returned e) reply = (t, Returned e, [])"
| "Start_step t (Panicked p) reply = (t, Panicked p, [])"

text \<open>
  Two calls, the session they share and what they have done to the outside so far. A
  schedule names the call that takes the next step; \<open>r1\<close> and \<open>r2\<close> are what the transport
  answers to the first and to the second call.
\<close>

datatype caller = First | Second

record 'w two_calls =
  shared :: "'w Twitter"
  first_at :: Start_at
  second_at :: Start_at
  trace :: "action list"

fun turn ::
  "caller \<Rightarrow> transport_error + Stream \<Rightarrow> transport_error + Stream \<Rightarrow> 'w two_calls
   \<Rightarrow> 'w two_calls"
where
  "turn First r1 r2 \<sigma> =
     (case Start_step (shared \<sigma>) (first_at \<sigma>) r1 of
        (t, at, acts) \<Rightarrow> \<sigma>\<lparr>shared := t, first_at := at, trace := trace \<sigma> @ acts\<rparr>)"
| "turn Second r1 r2 \<sigma> =
     (case Start_step (shared \<sigma>) (second_at \<sigma>) r2 of
        (t, at, acts) \<Rightarrow> \<sigma>\<lparr>shared := t, second_at := at, trace := trace \<sigma> @ acts\<rparr>)"

fun interleave ::
  "caller list \<Rightarrow> transport_error + Stream \<Rightarrow> transport_error + Stream \<Rightarrow> 'w two_calls
   \<Rightarrow> 'w two_calls"
where
  "interleave [] r1 r2 \<sigma> = \<sigma>"
| "interleave (c # cs) r1 r2 \<sigma> = interleave cs r1 r2 (turn c r1 r2 \<sigma>)"


text \<open>What a call that is over has returned, in the form of the result of \<open>Start\<close>.\<close>

fun result_of ::
  "'w Twitter \<times> Start_at \<times> action list
   \<Rightarrow> (panic + (error option \<times> 'w Twitter \<times> action list)) option"
where
  "result_of (t, Returned e, acts) = Some (Inr (e, t, acts))"
| "result_of (t, Panicked p, acts) = Some (Inl p)"
| "result_of (t, at, acts) = None"




section \<open>Inputs for evaluation\<close>

text \<open>A tweet by \<open>AlICe\<close> with a photo, a video and a photo.\<close>

definition AlICe :: TwitterUser where
  "AlICe = \<lparr>ScreenName = ''AlICe'', Name = ''Alice'',
            ProfileImageURLHttps = ''https://p/a.png''\<rparr>"

definition three_media :: Entities where
  "three_media =
     \<lparr>Media = [\<lparr>Type = ''photo'', MediaURLHttps = ''https://m/1.jpg''\<rparr>,
               \<lparr>Type = ''video'', MediaURLHttps = ''https://m/2.mp4''\<rparr>,
               \<lparr>Type = ''photo'', MediaURLHttps = ''https://m/3.jpg''\<rparr>]\<rparr>"

definition photo_video_photo :: TwitterTweet where
  "photo_video_photo =
     \<lparr>tw_ID = 7, tw_Text = ''look'', tw_User = Some AlICe, tw_Entities = Some three_media\<rparr>"

text \<open>A callback that keeps what it is given, and an idle session with it.\<close>

definition collect :: "Tweet \<Rightarrow> Tweet list \<Rightarrow> Tweet list" where
  "collect r w = w @ [r]"

definition alice_filter :: Filter where
  "alice_filter =
     \<lparr>Language = [''en''], Keywords = [''go''], OnlyUsers = [''Alice'', ''bob''],
      BlockedUsers = [''carol''], BlockedWords = [''spam'']\<rparr>"

definition a_client :: Client where
  "a_client = \<lparr>oauth_config = (''ck'', ''cs''), oauth_token = (''ak'', ''as''), Timeout = 30\<rparr>"

definition idle :: "Tweet list Twitter" where
  "idle = \<lparr>cb = Some collect, filter_f = Some alice_filter, stream = None,
           client = Some a_client\<rparr>"

definition two_messages :: Stream where
  "two_messages = \<lparr>Messages = [TweetMessage photo_video_photo, OtherMessage]\<rparr>"

definition running :: "Tweet list Twitter" where
  "running = idle\<lparr>stream := Some two_messages\<rparr>"



section \<open>Facts about the strings and the loops\<close>

lemma lower_byte_idem: "lower_byte (lower_byte c) = lower_byte c"
  by (simp add: lower_byte_def)

lemma ToLower_idem: "ToLower (ToLower s) = ToLower s"
  by (simp add: ToLower_def lower_byte_idem)

lemma HasPrefix_iff: "HasPrefix s p \<longleftrightarrow> (\<exists>q. s = p @ q)"
  by (induction s p rule: HasPrefix.induct) auto

lemma Contains_iff: "Contains s substr \<longleftrightarrow> (\<exists>p q. s = p @ substr @ q)"
proof (induction s)
  case Nil
  then show ?case by auto
next
  case (Cons c cs)
  show ?case
  proof
    assume "Contains (c # cs) substr"
    then consider "HasPrefix (c # cs) substr" | "Contains cs substr" by auto
    then show "\<exists>p q. c # cs = p @ substr @ q"
    proof cases
      case 1
      then obtain q where "c # cs = substr @ q" by (auto simp: HasPrefix_iff)
      then have "c # cs = [] @ substr @ q" by simp
      then show ?thesis by blast
    next
      case 2
      then obtain p q where "cs = p @ substr @ q" using Cons.IH by blast
      then have "c # cs = (c # p) @ substr @ q" by simp
      then show ?thesis by blast
    qed
  next
    assume "\<exists>p q. c # cs = p @ substr @ q"
    then obtain p q where pq: "c # cs = p @ substr @ q" by blast
    show "Contains (c # cs) substr"
    proof (cases p)
      case Nil
      with pq have "HasPrefix (c # cs) substr" by (auto simp: HasPrefix_iff)
      then show ?thesis by simp
    next
      case (Cons a p')
      with pq have "cs = p' @ substr @ q" by simp
      then have "Contains cs substr" using Cons.IH by blast
      then show ?thesis by simp
    qed
  qed
qed

lemma user_listed_iff: "user_listed xs u \<longleftrightarrow> (\<exists>x\<in>set xs. ToLower x = u)"
  by (induction xs) auto

lemma word_found_iff: "word_found ws c \<longleftrightarrow> (\<exists>w\<in>set ws. Contains c w)"
  by (induction ws) auto

text \<open>Only a handle in lower case is ever found in a list of authors.\<close>

lemma user_listed_lower: "user_listed xs u \<Longrightarrow> ToLower u = u"
  by (auto simp: user_listed_iff ToLower_idem)

lemma match_blocked: "user_listed (BlockedUsers f) u \<Longrightarrow> \<not> match f u c"
  by (cases "BlockedUsers f") (auto simp: match_def)

text \<open>The entries of a list of authors count in their lower-case form only.\<close>

lemma user_listed_entries_case:
  "map ToLower xs = map ToLower ys \<Longrightarrow> user_listed xs u = user_listed ys u"
proof -
  assume "map ToLower xs = map ToLower ys"
  then have "set (map ToLower xs) = set (map ToLower ys)" by simp
  then have "ToLower ` set xs = ToLower ` set ys" by simp
  moreover have "user_listed zs u \<longleftrightarrow> u \<in> ToLower ` set zs" for zs
    by (auto simp: user_listed_iff)
  ultimately show ?thesis by simp
qed

lemma ToLower_AlICe: "ToLower ''AlICe'' = ''alice''"
  by (simp add: ToLower_def lower_byte_def)


section \<open>The filter\<close>

text \<open>
  C1. When the blocked authors and the allowed authors both hold the author \<open>A\<close>, in any
  mix of upper and lower case, \<open>match\<close> answers \<open>false\<close> for \<open>A\<close> and every text, whether it is
  given \<open>A\<close> as written or in lower case as \<open>receive\<close> gives it: the block list is looked at
  first and the allow list cannot undo it.
\<close>

theorem match_blocked_wins:
  assumes blocked: "\<exists>b\<in>set (BlockedUsers f). ToLower b = ToLower A"
    and allowed: "\<exists>a\<in>set (OnlyUsers f). ToLower a = ToLower A"
  shows "\<not> match f A c \<and> \<not> match f (ToLower A) c"
proof
  have listed: "user_listed (BlockedUsers f) (ToLower A)"
    using blocked by (simp add: user_listed_iff)
  show "\<not> match f A c"
  proof
    assume m: "match f A c"
    from allowed have "OnlyUsers f \<noteq> []" by auto
    with m have "user_listed (OnlyUsers f) A"
      by (auto simp: match_def split: if_splits)
    then have "ToLower A = A" by (rule user_listed_lower)
    with listed have "user_listed (BlockedUsers f) A" by simp
    then have "\<not> match f A c" by (rule match_blocked)
    with m show False by simp
  qed
  show "\<not> match f (ToLower A) c"
    using listed by (rule match_blocked)
qed

theorem match_blocked_wins_witness:
  "\<not> match \<lparr>Language = [], Keywords = [''go''], OnlyUsers = [''Alice'', ''bob''],
             BlockedUsers = [''carol'', ''ALICE''], BlockedWords = []\<rparr> ''AlICe'' ''hello''
   \<and> \<not> match \<lparr>Language = [], Keywords = [''go''], OnlyUsers = [''Alice'', ''bob''],
             BlockedUsers = [''carol'', ''ALICE''], BlockedWords = []\<rparr> ''alice'' ''hello''"
proof -
  let ?f = "\<lparr>Language = [], Keywords = [''go''], OnlyUsers = [''Alice'', ''bob''],
             BlockedUsers = [''carol'', ''ALICE''], BlockedWords = []\<rparr>"
  have b: "\<exists>b\<in>set (BlockedUsers ?f). ToLower b = ToLower ''AlICe''"
    by (simp add: ToLower_def lower_byte_def)
  have a: "\<exists>a\<in>set (OnlyUsers ?f). ToLower a = ToLower ''AlICe''"
    by (simp add: ToLower_def lower_byte_def)
  show ?thesis
    using match_blocked_wins [OF b a, of "''hello''"] by (simp add: ToLower_AlICe)
qed

text \<open>
  C2. As stated, for \<open>match\<close> itself, the claim fails: \<open>match\<close> compares its first argument,
  as it is given, with the lower-case form of each entry, so \<open>AlICe\<close> equals no entry. With
  \<open>alice\<close> as the one allowed author, \<open>match\<close> accepts \<open>alice\<close> and rejects \<open>AlICe\<close>.
\<close>

theorem match_author_case_counterexample:
  "match \<lparr>Language = [], Keywords = [''go''], OnlyUsers = [''alice''],
          BlockedUsers = [], BlockedWords = []\<rparr> ''AlICe'' ''hello''
   \<noteq> match \<lparr>Language = [], Keywords = [''go''], OnlyUsers = [''alice''],
          BlockedUsers = [], BlockedWords = []\<rparr> ''alice'' ''hello''"
  by (simp add: match_def ToLower_def lower_byte_def)

text \<open>
  C2, amended. The case of the author is taken away by the caller: \<open>receive\<close> puts the handle
  in lower case before it calls \<open>match\<close> (line 126). So two tweets whose handles differ in case
  only, as \<open>AlICe\<close> and \<open>alice\<close> do, get the same answer from the filter step of \<open>receive\<close>, and
  \<open>match\<close> gives the same answer on the lower-case forms of the two handles, whatever the
  lists hold.
\<close>

theorem receive_filter_author_case:
  assumes "ToLower a = ToLower b"
  shows "receive_filter t (x\<lparr>tw_User := Some (usr\<lparr>ScreenName := a\<rparr>)\<rparr>)
           = receive_filter t (x\<lparr>tw_User := Some (usr\<lparr>ScreenName := b\<rparr>)\<rparr>)
         \<and> match f (ToLower a) c = match f (ToLower b) c"
  using assms by (simp add: receive_filter_def split: option.splits)

theorem receive_filter_author_case_witness:
  "receive_filter idle (photo_video_photo\<lparr>tw_User := Some (AlICe\<lparr>ScreenName := ''AlICe''\<rparr>)\<rparr>)
     = receive_filter idle (photo_video_photo\<lparr>tw_User := Some (AlICe\<lparr>ScreenName := ''alice''\<rparr>)\<rparr>)
   \<and> match alice_filter (ToLower ''AlICe'') ''look'' = match alice_filter ''alice'' ''look''"
proof -
  have l: "ToLower ''AlICe'' = ToLower ''alice''"
    by (simp add: ToLower_def lower_byte_def)
  show ?thesis
    using receive_filter_author_case
      [OF l, where t = idle and x = photo_video_photo and usr = AlICe and f = alice_filter
        and c = "''look''"]
    by (simp add: ToLower_def lower_byte_def)
qed

text \<open>
  C3. With some allowed authors, no blocked author and no blocked word, \<open>match\<close> answers
  \<open>true\<close> for a handle in lower case exactly when the handle is, case aside, one of the
  allowed authors.
\<close>

theorem match_allow_list_only:
  assumes "OnlyUsers f \<noteq> []" and "BlockedUsers f = []" and "BlockedWords f = []"
    and "ToLower u = u"
  shows "match f u c \<longleftrightarrow> (\<exists>a\<in>set (OnlyUsers f). ToLower a = ToLower u)"
  using assms by (simp add: match_def user_listed_iff)

theorem match_allow_list_only_witness:
  "match \<lparr>Language = [], Keywords = [''go''], OnlyUsers = [''Alice'', ''bob''],
          BlockedUsers = [], BlockedWords = []\<rparr> ''alice'' ''hello''
   \<and> \<not> match \<lparr>Language = [], Keywords = [''go''], OnlyUsers = [''Alice'', ''bob''],
          BlockedUsers = [], BlockedWords = []\<rparr> ''carol'' ''hello''"
proof -
  let ?f = "\<lparr>Language = [], Keywords = [''go''], OnlyUsers = [''Alice'', ''bob''],
             BlockedUsers = [], BlockedWords = []\<rparr>"
  have n: "OnlyUsers ?f \<noteq> []" and bu: "BlockedUsers ?f = []" and bw: "BlockedWords ?f = []"
    by simp_all
  have la: "ToLower ''alice'' = ''alice''" and lc: "ToLower ''carol'' = ''carol''"
    by (simp_all add: ToLower_def lower_byte_def)
  show ?thesis
    using match_allow_list_only [OF n bu bw la, of "''hello''"]
      match_allow_list_only [OF n bu bw lc, of "''hello''"]
    by (simp add: ToLower_def lower_byte_def)
qed


section \<open>The translation of a tweet\<close>

lemma append_photos_Images:
  "Images r = Some xs \<Longrightarrow>
   append_photos ms r
     = r\<lparr>Images := Some (xs @ map MediaURLHttps (filter (\<lambda>m. Type m = ''photo'') ms))\<rparr>"
  by (induction ms arbitrary: r xs) auto

text \<open>The record that lines 130 to 144 build from a tweet with its user and its entities.\<close>

lemma receive_record_Inr:
  assumes "tw_User x = Some usr" and "tw_Entities x = Some e"
  shows "receive_record x =
     Inr \<lparr>ID = tw_ID x, User = ScreenName usr, Text = tw_Text x, Time = 0,
          Images = (if Media e = [] then None
                    else Some (map MediaURLHttps (filter (\<lambda>m. Type m = ''photo'') (Media e)))),
          UserName = Name usr, UserPhoto = ProfileImageURLHttps usr\<rparr>"
  using assms by (simp add: receive_record_def append_photos_Images)

lemma AlICe_passes: "receive_filter idle photo_video_photo = Inr True"
  by (simp add: receive_filter_def idle_def alice_filter_def photo_video_photo_def AlICe_def
      match_def ToLower_def lower_byte_def)

text \<open>
  C4. For a tweet, with its user and its entities, that passes the filter, \<open>receive\<close> builds a
  record whose images are the URLs of the media of type \<open>photo\<close>, in the order of the media,
  and nothing else; this record is what the callback gets. A photo, a video and a photo give
  the two URLs of the photos, the first before the second.
\<close>

theorem receive_images_are_photos:
  assumes "tw_User x = Some usr" and "tw_Entities x = Some e"
    and "receive_filter t x = Inr True"
  shows "\<exists>r. receive_record x = Inr r
           \<and> elems (Images r) = map MediaURLHttps (filter (\<lambda>m. Type m = ''photo'') (Media e))
           \<and> receive t x w = (case cb t of None \<Rightarrow> Inr w | Some k \<Rightarrow> Inr (k r w))"
  using assms by (simp add: receive_record_Inr receive_def)

theorem receive_images_are_photos_witness:
  "\<exists>r. receive_record photo_video_photo = Inr r
      \<and> elems (Images r) = [''https://m/1.jpg'', ''https://m/3.jpg'']
      \<and> receive idle photo_video_photo [] = Inr [r]"
proof -
  have u: "tw_User photo_video_photo = Some AlICe"
    and e: "tw_Entities photo_video_photo = Some three_media"
    by (simp_all add: photo_video_photo_def)
  show ?thesis
    using receive_images_are_photos [OF u e AlICe_passes, of "[]"]
    by (simp add: idle_def collect_def three_media_def)
qed

text \<open>
  C10. For a tweet, with its user and its entities, that passes the filter, the record that
  \<open>receive\<close> builds and hands to the callback has \<open>Time\<close> zero: no line copies a time into it.
\<close>

theorem receive_Time_zero:
  assumes "tw_User x = Some usr" and "tw_Entities x = Some e"
    and "receive_filter t x = Inr True" and "cb t = Some k"
  shows "\<exists>r. receive_record x = Inr r \<and> Time r = 0 \<and> receive t x w = Inr (k r w)"
  using assms by (simp add: receive_record_Inr receive_def)

theorem receive_Time_zero_witness:
  "\<exists>r. receive_record photo_video_photo = Inr r \<and> Time r = 0
      \<and> receive idle photo_video_photo [] = Inr [r]"
proof -
  have u: "tw_User photo_video_photo = Some AlICe"
    and e: "tw_Entities photo_video_photo = Some three_media"
    by (simp_all add: photo_video_photo_def)
  have k: "cb idle = Some collect" by (simp add: idle_def)
  show ?thesis
    using receive_Time_zero [OF u e AlICe_passes k, of "[]"]
    by (simp add: collect_def)
qed


section \<open>The construction of a session\<close>




text \<open>A session that \<open>NewTwitter\<close> returns is idle, with its client and its filter.\<close>

lemma NewTwitter_session:
  assumes "NewTwitter timeout f a verify = (Inr t, acts)"
  shows "cb t = None \<and> stream t = None \<and> client t \<noteq> None \<and> filter_f t = f \<and> f \<noteq> None
         \<and> Keywords (the f) \<noteq> [] \<and> (\<exists>i. acts = [VerifyCredentials i])"
  using assms by (auto simp: NewTwitter_def Let_def split: option.splits if_splits)


section \<open>Start, Stop and the background loop\<close>

text \<open>
  C6. When the session holds a subscription handle, \<open>Start\<close> returns the already-started
  error, does nothing to the outside (it opens no subscription and launches no loop) and
  leaves the session, handle included, as it was. The session that a successful \<open>Start\<close>
  leaves holds a handle, so a second \<open>Start\<close> right after it fails in this way.
\<close>

theorem Start_already_started:
  assumes "stream t = Some s \<or> Start t0 reply0 = Inr (None, t, acts)"
  shows "Start t reply = Inr (Some ErrAlreadyStarted, t, [])"
proof -
  have "stream t \<noteq> None"
    using assms
    by (auto simp: Start_def Let_def split: if_splits option.splits sum.splits)
  then show ?thesis by (simp add: Start_def)
qed

theorem Start_already_started_witness:
  "Start idle (Inr two_messages)
     = Inr (None, running,
            [StreamsFilter a_client \<lparr>Track = [''go''], sfp_Language = [''en''],
                                     StallWarnings = Some True\<rparr>, Go_loop])
   \<and> Start running (Inr \<lparr>Messages = []\<rparr>) = Inr (Some ErrAlreadyStarted, running, [])"
proof -
  have first: "Start idle (Inr two_messages)
     = Inr (None, running,
            [StreamsFilter a_client \<lparr>Track = [''go''], sfp_Language = [''en''],
                                     StallWarnings = Some True\<rparr>, Go_loop])"
    by (simp add: Start_def idle_def running_def alice_filter_def)
  show ?thesis
    using first Start_already_started [OF disjI2, OF first, of "Inr \<lparr>Messages = []\<rparr>"]
    by simp
qed

text \<open>
  C7. When the opening of the subscription fails on an idle session, \<open>Start\<close> returns an error
  that wraps the error of the transport; the session is as it was, without a handle; the
  one thing done to the outside is the call that failed, and no loop is launched. A \<open>Start\<close>
  after it whose opening succeeds stores the handle and launches the loop.
\<close>

theorem Start_open_failure:
  assumes "stream t = None" and "client t = Some c" and "filter_f t = Some f"
  shows "Start t (Inl err)
           = Inr (Some (Errorf ''unable to start Twitter filter: '' err), t,
                  [StreamsFilter c \<lparr>Track = Keywords f, sfp_Language = Language f,
                                    StallWarnings = Some True\<rparr>])
         \<and> Unwrap (Errorf ''unable to start Twitter filter: '' err) = Some err
         \<and> Start t (Inr s)
           = Inr (None, t\<lparr>stream := Some s\<rparr>,
                  [StreamsFilter c \<lparr>Track = Keywords f, sfp_Language = Language f,
                                    StallWarnings = Some True\<rparr>, Go_loop])"
  using assms by (simp add: Start_def)

theorem Start_open_failure_witness:
  "Start idle (Inl (TransportError ''EOF''))
     = Inr (Some (Errorf ''unable to start Twitter filter: '' (TransportError ''EOF'')), idle,
            [StreamsFilter a_client \<lparr>Track = [''go''], sfp_Language = [''en''],
                                     StallWarnings = Some True\<rparr>])
   \<and> Start idle (Inr two_messages)
     = Inr (None, running,
            [StreamsFilter a_client \<lparr>Track = [''go''], sfp_Language = [''en''],
                                     StallWarnings = Some True\<rparr>, Go_loop])"
proof -
  have s: "stream idle = None" and c: "client idle = Some a_client"
    and f: "filter_f idle = Some alice_filter"
    by (simp_all add: idle_def)
  show ?thesis
    using Start_open_failure [OF s c f, of "TransportError ''EOF''" two_messages]
    by (simp add: running_def alice_filter_def)
qed

text \<open>A complete message is handled without a panic.\<close>

lemma receive_complete:
  assumes "tw_User x \<noteq> None" and "tw_Entities x \<noteq> None"
  shows "\<exists>w'. receive t x w = Inr w'"
proof -
  from assms obtain usr e where u: "tw_User x = Some usr" and e: "tw_Entities x = Some e"
    by auto
  show ?thesis
    by (simp add: receive_def receive_filter_def receive_record_Inr [OF u e] u
        split: option.splits bool.splits)
qed

lemma Handle_complete: "complete m \<Longrightarrow> \<exists>w'. Handle t m w = Inr w'"
  by (cases m) (auto simp: Handle_def receive_complete)

lemma range_Messages_complete:
  "\<forall>m\<in>set ms. complete m \<Longrightarrow> \<exists>w'. range_Messages t ms w = Inr w'"
proof (induction ms arbitrary: w)
  case Nil
  then show ?case by simp
next
  case (Cons m ms)
  then obtain w1 where "Handle t m w = Inr w1"
    using Handle_complete [of m t w] by auto
  moreover obtain w2 where "range_Messages t ms w1 = Inr w2"
    using Cons by auto
  ultimately show ?case by simp
qed

text \<open>
  C8. The channel of a running session closes after finitely many messages, these complete:
  the background loop then returns, and the session it leaves has no handle. After \<open>Stop\<close> the
  channel is closed at once: the loop handles nothing more and leaves the session without
  a handle.
\<close>

theorem background_loop_clears_handle:
  assumes "stream x = Some s" and "\<forall>m\<in>set (Messages s). complete m"
  shows "(\<exists>w'. background_loop x w = Inr (x\<lparr>stream := None\<rparr>, w'))
         \<and> background_loop (Stop x) w = Inr (x\<lparr>stream := None\<rparr>, w)"
proof
  obtain w' where "range_Messages x (Messages s) w = Inr w'"
    using range_Messages_complete [OF assms(2), of x w] by blast
  then show "\<exists>w'. background_loop x w = Inr (x\<lparr>stream := None\<rparr>, w')"
    using assms(1) by (simp add: background_loop_def)
  show "background_loop (Stop x) w = Inr (x\<lparr>stream := None\<rparr>, w)"
    using assms(1) by (simp add: background_loop_def Stop_def Stream_Stop_def)
qed

theorem background_loop_clears_handle_witness:
  "(\<exists>w'. background_loop running [] = Inr (idle, w'))
   \<and> background_loop (Stop running) [] = Inr (idle, [])"
proof -
  have s: "stream running = Some two_messages"
    by (simp add: running_def)
  have c: "\<forall>m\<in>set (Messages two_messages). complete m"
    by (simp add: two_messages_def photo_video_photo_def)
  have i: "running\<lparr>stream := None\<rparr> = idle"
    by (simp add: running_def idle_def)
  show ?thesis
    using background_loop_clears_handle [OF s c, of "[]"] by (simp add: i)
qed


section \<open>Two calls of \<open>Start\<close> at once\<close>

text \<open>The three steps of a call that no other call interrupts are \<open>Start\<close>.\<close>

lemma Start_in_steps:
  "first_at \<sigma> = At_check \<Longrightarrow>
   (let \<sigma>' = interleave [First, First, First] r1 r2 \<sigma>
    in result_of (shared \<sigma>', first_at \<sigma>', drop (length (trace \<sigma>)) (trace \<sigma>')))
   = Some (Start (shared \<sigma>) r1)"
  by (auto simp: Start_def Let_def split: option.splits sum.splits)












end
